theory Spec2Isabelle
  imports Complex_Main
begin

section \<open>Python strings\<close>

text \<open>
  A Python \<open>str\<close> is a sequence of Unicode code points and \<open>len\<close> counts code points,
  so a character is modelled by its code point (a natural number) and a string by the
  list of its code points.  \<open>asc\<close> embeds an ASCII literal.
\<close>

type_synonym uchar = nat
type_synonym ustr = "nat list"

definition asc :: "string \<Rightarrow> ustr" where
  "asc s = map of_char s"

text \<open>
  \<open>str.isspace\<close> of one character; the regex class \<open>\s\<close> of a \<open>str\<close> pattern is the
  same set of code points.
\<close>

definition isspace :: "uchar \<Rightarrow> bool" where
  "isspace c \<longleftrightarrow>
     (9 \<le> c \<and> c \<le> 13) \<or> (28 \<le> c \<and> c \<le> 32) \<or> c = 133 \<or> c = 160 \<or> c = 5760 \<or>
     (8192 \<le> c \<and> c \<le> 8202) \<or> c = 8232 \<or> c = 8233 \<or> c = 8239 \<or> c = 8287 \<or> c = 12288"

text \<open>
  The rest of the Unicode character database of the Python runtime is not part of the
  repository and is taken as a parameter: \<open>str.isupper\<close> and \<open>str.isdigit\<close> of one
  character, the regex class \<open>\d\<close> (the decimal digits), and the value \<open>int\<close> gives to a
  decimal digit.
\<close>

record ucd =
  isupper :: "uchar \<Rightarrow> bool"
  isdigit :: "uchar \<Rightarrow> bool"
  isdecimal :: "uchar \<Rightarrow> bool"
  decimal_value :: "uchar \<Rightarrow> nat"

text \<open>
  The database restricted to ASCII and to the two Vietnamese capitals U+01AF and U+01A0
  of the chapter word; it agrees with Unicode on the characters of the examples below.
\<close>

definition ascii_ucd :: ucd where
  "ascii_ucd =
     \<lparr> isupper = (\<lambda>c. (65 \<le> c \<and> c \<le> 90) \<or> c = 431 \<or> c = 416),
       isdigit = (\<lambda>c. 48 \<le> c \<and> c \<le> 57),
       isdecimal = (\<lambda>c. 48 \<le> c \<and> c \<le> 57),
       decimal_value = (\<lambda>c. c - 48) \<rparr>"

definition lstrip :: "ustr \<Rightarrow> ustr" where
  "lstrip s = dropWhile isspace s"

definition rstrip :: "ustr \<Rightarrow> ustr" where
  "rstrip s = rev (dropWhile isspace (rev s))"

definition strip :: "ustr \<Rightarrow> ustr" where
  "strip s = lstrip (rstrip s)"

text \<open>\<open>text[a:b]\<close> for \<open>0 \<le> a\<close>, \<open>0 \<le> b\<close>.\<close>

definition slice :: "ustr \<Rightarrow> nat \<Rightarrow> nat \<Rightarrow> ustr" where
  "slice s a b = take (b - a) (drop a s)"

text \<open>
  \<open>str.split(sep)\<close> with a non-empty separator: a left-to-right scan for
  non-overlapping occurrences.  (Python raises on an empty separator; the sources only
  split on \<open>'\n'\<close> and \<open>'\n\n'\<close>, and the model returns the text whole in that case.)
\<close>

function split_from :: "ustr \<Rightarrow> ustr \<Rightarrow> ustr \<Rightarrow> ustr list" where
  "split_from sep cur [] = [cur]"
| "split_from sep cur (c # cs) =
     (if sep \<noteq> [] \<and> take (length sep) (c # cs) = sep
      then cur # split_from sep [] (drop (length sep) (c # cs))
      else split_from sep (cur @ [c]) cs)"
  by pat_completeness auto
termination
  by (relation "measure (\<lambda>(sep, cur, s). length s)") auto

definition split_str :: "ustr \<Rightarrow> ustr \<Rightarrow> ustr list" where
  "split_str sep s = split_from sep [] s"

fun join :: "ustr \<Rightarrow> ustr list \<Rightarrow> ustr" where
  "join sep [] = []"
| "join sep [x] = x"
| "join sep (x # y # ys) = x @ sep @ join sep (y # ys)"

definition NL :: uchar where
  "NL = 10"

text \<open>Decimal output of integers: \<open>str(n)\<close> and the format \<open>{n:0wd}\<close>.\<close>

fun digits_of :: "nat \<Rightarrow> ustr" where
  "digits_of n = (if n < 10 then [48 + n] else digits_of (n div 10) @ [48 + n mod 10])"

declare digits_of.simps [simp del]

definition str_int :: "int \<Rightarrow> ustr" where
  "str_int i = (if i < 0 then 45 # digits_of (nat (- i)) else digits_of (nat i))"

definition fmt_0d :: "nat \<Rightarrow> int \<Rightarrow> ustr" where
  "fmt_0d w i =
     (let sign = (if i < 0 then [45] else []);
          body = digits_of (nat \<bar>i\<bar>)
      in sign @ replicate (w - length sign - length body) 48 @ body)"

text \<open>\<open>int(s)\<close> on a string of decimal digits.\<close>

definition int_of_digits :: "ucd \<Rightarrow> ustr \<Rightarrow> int" where
  "int_of_digits U s = int (foldl (\<lambda>acc c. 10 * acc + decimal_value U c) 0 s)"

section \<open>Regular expressions of the \<open>re\<close> module\<close>

text \<open>
  The patterns of the sources are kept as data and run by a backtracking matcher with
  the priorities of Python's \<open>re\<close>: alternatives left to right, greedy repetition longest
  first, lazy repetition shortest first.  Every repetition in the sources is over a
  single character class, so repetition is modelled for classes only.
\<close>

datatype cclass =
    CSet "uchar list"   \<comment> \<open>\<open>[...]\<close> or one literal character\<close>
  | CDot                \<comment> \<open>\<open>.\<close>: any character but the newline\<close>
  | CSpace              \<comment> \<open>\<open>\s\<close>\<close>
  | CDigit              \<comment> \<open>\<open>\d\<close>\<close>

fun in_class :: "ucd \<Rightarrow> cclass \<Rightarrow> uchar \<Rightarrow> bool" where
  "in_class U (CSet cs) c = (c \<in> set cs)"
| "in_class U CDot c = (c \<noteq> NL)"
| "in_class U CSpace c = isspace c"
| "in_class U CDigit c = isdecimal U c"

datatype regex =
    Eps
  | Cls cclass
  | Lit ustr                          \<comment> \<open>a literal string, case-sensitive\<close>
  | Seq regex regex
  | Alt regex regex                   \<comment> \<open>\<open>a|b\<close>\<close>
  | Opt regex                         \<comment> \<open>\<open>(?:a)?\<close>, greedy\<close>
  | Greedy cclass nat "nat option"    \<comment> \<open>\<open>c{m,n}\<close>, \<open>c*\<close>, \<open>c+\<close>; \<open>None\<close> is no upper bound\<close>
  | Lazy cclass nat "nat option"      \<comment> \<open>\<open>c{m,n}?\<close>, \<open>c+?\<close>\<close>
  | Grp nat regex                     \<comment> \<open>capturing group number \<open>n\<close>\<close>
  | Bol                               \<comment> \<open>\<open>^\<close>\<close>
  | Eol                               \<comment> \<open>\<open>$\<close>\<close>
  | Ahead regex                       \<comment> \<open>\<open>(?=a)\<close>\<close>
  | Behind cclass                     \<comment> \<open>\<open>(?<=c)\<close> for one character\<close>

definition seqs :: "regex list \<Rightarrow> regex" where
  "seqs rs = foldr Seq rs Eps"

text \<open>
  A literal under \<open>re.IGNORECASE\<close>: each letter is the class of its lower-case and
  upper-case forms (for the letters of the sources' patterns no other character
  case-folds to them).
\<close>

definition ci_lit :: "(uchar \<times> uchar) list \<Rightarrow> regex" where
  "ci_lit ps = seqs (map (\<lambda>(l, u). Cls (CSet [l, u])) ps)"

record mstate =
  pos :: nat
  groups :: "nat \<Rightarrow> (nat \<times> nat) option"

definition at_bol :: "bool \<Rightarrow> ustr \<Rightarrow> nat \<Rightarrow> bool" where
  "at_bol multiline s i \<longleftrightarrow> i = 0 \<or> (multiline \<and> i \<le> length s \<and> s ! (i - 1) = NL)"

definition at_eol :: "bool \<Rightarrow> ustr \<Rightarrow> nat \<Rightarrow> bool" where
  "at_eol multiline s i \<longleftrightarrow>
     i = length s \<or>
     (i < length s \<and> s ! i = NL \<and> (multiline \<or> i + 1 = length s))"

definition run_len :: "ucd \<Rightarrow> cclass \<Rightarrow> ustr \<Rightarrow> nat \<Rightarrow> nat" where
  "run_len U c s i = length (takeWhile (in_class U c) (drop i s))"

text \<open>The repetition counts to try, in the order the matcher tries them.\<close>

definition rep_counts :: "ucd \<Rightarrow> cclass \<Rightarrow> ustr \<Rightarrow> nat \<Rightarrow> nat \<Rightarrow> nat option \<Rightarrow> nat list" where
  "rep_counts U c s i lo hi =
     (let r = run_len U c s i;
          top = (case hi of None \<Rightarrow> r | Some h \<Rightarrow> min r h)
      in [lo ..< top + 1])"

fun try_counts :: "(mstate \<Rightarrow> mstate option) \<Rightarrow> mstate \<Rightarrow> nat list \<Rightarrow> mstate option" where
  "try_counts k st [] = None"
| "try_counts k st (n # ns) =
     (case k (st\<lparr>pos := pos st + n\<rparr>) of
        Some r \<Rightarrow> Some r
      | None \<Rightarrow> try_counts k st ns)"

text \<open>
  \<open>rmatch U multiline s r st k\<close> matches \<open>r\<close> in \<open>s\<close> from the state \<open>st\<close> and hands each
  way of matching, in priority order, to the continuation \<open>k\<close> until one succeeds.
\<close>

fun rmatch :: "ucd \<Rightarrow> bool \<Rightarrow> ustr \<Rightarrow> regex \<Rightarrow> mstate \<Rightarrow> (mstate \<Rightarrow> mstate option) \<Rightarrow> mstate option" where
  "rmatch U ml s Eps st k = k st"
| "rmatch U ml s (Cls c) st k =
     (if pos st < length s \<and> in_class U c (s ! pos st) then k (st\<lparr>pos := pos st + 1\<rparr>) else None)"
| "rmatch U ml s (Lit w) st k =
     (if take (length w) (drop (pos st) s) = w then k (st\<lparr>pos := pos st + length w\<rparr>) else None)"
| "rmatch U ml s (Seq a b) st k = rmatch U ml s a st (\<lambda>st'. rmatch U ml s b st' k)"
| "rmatch U ml s (Alt a b) st k =
     (case rmatch U ml s a st k of Some r \<Rightarrow> Some r | None \<Rightarrow> rmatch U ml s b st k)"
| "rmatch U ml s (Opt a) st k =
     (case rmatch U ml s a st k of Some r \<Rightarrow> Some r | None \<Rightarrow> k st)"
| "rmatch U ml s (Greedy c lo hi) st k = try_counts k st (rev (rep_counts U c s (pos st) lo hi))"
| "rmatch U ml s (Lazy c lo hi) st k = try_counts k st (rep_counts U c s (pos st) lo hi)"
| "rmatch U ml s (Grp n a) st k =
     rmatch U ml s a st (\<lambda>st'. k (st'\<lparr>groups := (groups st')(n \<mapsto> (pos st, pos st'))\<rparr>))"
| "rmatch U ml s Bol st k = (if at_bol ml s (pos st) then k st else None)"
| "rmatch U ml s Eol st k = (if at_eol ml s (pos st) then k st else None)"
| "rmatch U ml s (Ahead a) st k =
     (case rmatch U ml s a st Some of Some r \<Rightarrow> k st | None \<Rightarrow> None)"
| "rmatch U ml s (Behind c) st k =
     (if 0 < pos st \<and> pos st \<le> length s \<and> in_class U c (s ! (pos st - 1)) then k st else None)"

text \<open>A match object: \<open>m.start()\<close>, \<open>m.end()\<close> and the spans of its groups.\<close>

record rmatch_obj =
  m_start :: nat
  m_end :: nat
  m_groups :: "nat \<Rightarrow> (nat \<times> nat) option"

definition match_at :: "ucd \<Rightarrow> bool \<Rightarrow> regex \<Rightarrow> ustr \<Rightarrow> nat \<Rightarrow> rmatch_obj option" where
  "match_at U ml r s i =
     (case rmatch U ml s r \<lparr>pos = i, groups = Map.empty\<rparr> Some of
        None \<Rightarrow> None
      | Some st \<Rightarrow> Some \<lparr>m_start = i, m_end = pos st, m_groups = groups st\<rparr>)"

text \<open>\<open>m.group(n)\<close>; \<open>None\<close> when the group took no part in the match.\<close>

definition group :: "ustr \<Rightarrow> rmatch_obj \<Rightarrow> nat \<Rightarrow> ustr option" where
  "group s m n = (case m_groups m n of None \<Rightarrow> None | Some (a, b) \<Rightarrow> Some (slice s a b))"

text \<open>\<open>re.match\<close>: a match at the start of the string only.\<close>

definition re_match :: "ucd \<Rightarrow> bool \<Rightarrow> regex \<Rightarrow> ustr \<Rightarrow> bool" where
  "re_match U ml r s \<longleftrightarrow> match_at U ml r s 0 \<noteq> None"

text \<open>
  \<open>finditer\<close>: the non-overlapping matches from left to right.  The scan tries each start
  position in turn and resumes at the end of a match.  (No pattern of the sources matches
  the empty string; after an empty match the scan moves on by one character.)
\<close>

function finditer_from :: "ucd \<Rightarrow> bool \<Rightarrow> regex \<Rightarrow> ustr \<Rightarrow> nat \<Rightarrow> rmatch_obj list" where
  "finditer_from U ml r s p =
     (if length s < p then []
      else case match_at U ml r s p of
             None \<Rightarrow> finditer_from U ml r s (p + 1)
           | Some m \<Rightarrow> m # finditer_from U ml r s (if p < m_end m then m_end m else p + 1))"
  by pat_completeness auto
termination
  by (relation "measure (\<lambda>(U, ml, r, s, p). Suc (length s) - p)") auto

declare finditer_from.simps [simp del]

definition finditer :: "ucd \<Rightarrow> bool \<Rightarrow> regex \<Rightarrow> ustr \<Rightarrow> rmatch_obj list" where
  "finditer U ml r s = finditer_from U ml r s 0"

text \<open>
  \<open>re.sub\<close> with a replacement function and \<open>re.split\<close> (pattern without groups), both
  from the list of matches: \<open>p\<close> is the end of the previous match.
\<close>

fun sub_from :: "ustr \<Rightarrow> (rmatch_obj \<Rightarrow> ustr) \<Rightarrow> nat \<Rightarrow> rmatch_obj list \<Rightarrow> ustr" where
  "sub_from s repl p [] = drop p s"
| "sub_from s repl p (m # ms) = slice s p (m_start m) @ repl m @ sub_from s repl (m_end m) ms"

definition re_sub :: "ucd \<Rightarrow> bool \<Rightarrow> regex \<Rightarrow> (rmatch_obj \<Rightarrow> ustr) \<Rightarrow> ustr \<Rightarrow> ustr" where
  "re_sub U ml r repl s = sub_from s repl 0 (finditer U ml r s)"

fun split_at :: "ustr \<Rightarrow> nat \<Rightarrow> rmatch_obj list \<Rightarrow> ustr list" where
  "split_at s p [] = [drop p s]"
| "split_at s p (m # ms) = slice s p (m_start m) # split_at s (m_end m) ms"

definition re_split :: "ucd \<Rightarrow> bool \<Rightarrow> regex \<Rightarrow> ustr \<Rightarrow> ustr list" where
  "re_split U ml r s = split_at s 0 (finditer U ml r s)"

section \<open>preprocess.py\<close>

text \<open>The characters of the two literals, by code point, in the order of the source.\<close>

definition SENTENCE_ENDINGS :: "uchar list" where
  "SENTENCE_ENDINGS =
     [46, 33, 63, 8230, 58, 59, 34, 39, 34, 12301, 12303, 12305, 65289, 41, 93, 8221, 8220]"

definition LINE_START_BLOCK :: "uchar list" where
  "LINE_START_BLOCK = [8226, 183, 9679, 9675, 9670, 9671, 9632, 9633, 9642, 9643, 8211, 8212, 45]"

text \<open>\<open>s.replace(old, new)\<close> for a non-empty \<open>old\<close>.\<close>

definition replace_str :: "ustr \<Rightarrow> ustr \<Rightarrow> ustr \<Rightarrow> ustr" where
  "replace_str old new s = join new (split_str old s)"

definition normalize_newlines :: "ustr \<Rightarrow> ustr" where
  "normalize_newlines text = replace_str [13] [NL] (replace_str [13, NL] [NL] text)"

text \<open>The word \<open>chuong\<close> with its Vietnamese letters, under \<open>re.IGNORECASE\<close>.\<close>

definition chuong_ci :: regex where
  "chuong_ci = ci_lit [(99, 67), (104, 72), (432, 431), (417, 416), (110, 78), (103, 71)]"

text \<open>\<open>^\s*\d+\s*$\<close>\<close>

definition page_number_re1 :: regex where
  "page_number_re1 =
     seqs [Bol, Greedy CSpace 0 None, Greedy CDigit 1 None, Greedy CSpace 0 None, Eol]"

text \<open>\<open>^\s*[-\u2014\u2013]\s*\d+\s*[-\u2014\u2013]\s*$\<close>\<close>

definition page_number_re2 :: regex where
  "page_number_re2 =
     seqs [Bol, Greedy CSpace 0 None, Cls (CSet [45, 8212, 8211]), Greedy CSpace 0 None,
           Greedy CDigit 1 None, Greedy CSpace 0 None, Cls (CSet [45, 8212, 8211]),
           Greedy CSpace 0 None, Eol]"

text \<open>\<open>^\s*(Page|Trang|p\.?)\s*\d+\s*$\<close> under \<open>re.IGNORECASE\<close>\<close>

definition page_number_re3 :: regex where
  "page_number_re3 =
     seqs [Bol, Greedy CSpace 0 None,
           Grp 1 (Alt (ci_lit [(112, 80), (97, 65), (103, 71), (101, 69)])
                 (Alt (ci_lit [(116, 84), (114, 82), (97, 65), (110, 78), (103, 71)])
                      (Seq (Cls (CSet [112, 80])) (Greedy (CSet [46]) 0 (Some 1))))),
           Greedy CSpace 0 None, Greedy CDigit 1 None, Greedy CSpace 0 None, Eol]"

definition is_page_number_line :: "ucd \<Rightarrow> ustr \<Rightarrow> bool" where
  "is_page_number_line U line =
     (let stripped = strip line
      in list_ex (\<lambda>pattern. re_match U False pattern stripped)
           [page_number_re1, page_number_re2, page_number_re3])"

text \<open>\<open>^\s*chuong\s+\d{1,5}\s*(?:[:\uFF1A.\-\u2013\u2014]|$)\<close> under \<open>re.IGNORECASE\<close>; the
  separators are the colon, the fullwidth colon, the full stop, the hyphen, the en dash
  and the em dash.\<close>

definition chapter_heading_re :: regex where
  "chapter_heading_re =
     seqs [Bol, Greedy CSpace 0 None, chuong_ci, Greedy CSpace 1 None,
           Greedy CDigit 1 (Some 5), Greedy CSpace 0 None,
           Alt (Cls (CSet [58, 65306, 46, 45, 8211, 8212])) Eol]"

definition is_chapter_heading :: "ucd \<Rightarrow> ustr \<Rightarrow> bool" where
  "is_chapter_heading U line = (let stripped = strip line in re_match U False chapter_heading_re stripped)"

definition should_join_lines :: "ucd \<Rightarrow> ustr \<Rightarrow> ustr \<Rightarrow> bool" where
  "should_join_lines U current_line next_line =
     (let current = rstrip current_line;
          next_stripped = strip next_line
      in if current = [] \<or> next_stripped = [] then False
         else if is_chapter_heading U current \<or> is_chapter_heading U next_stripped then False
         else if last current \<in> set SENTENCE_ENDINGS then False
         else if hd next_stripped \<in> set LINE_START_BLOCK then False
         else if isupper U (hd next_stripped) \<and> \<not> isdigit U (hd next_stripped) then False
         else True)"

text \<open>
  \<open>random.sample(population, k)\<close> reads the process-wide random generator.  The model
  takes the sampler as a parameter \<open>rnd\<close>; a real outcome of the call is a list of \<open>k\<close>
  distinct elements of the population.
\<close>

definition is_sample :: "nat list \<Rightarrow> nat \<Rightarrow> nat list \<Rightarrow> bool" where
  "is_sample population k xs \<longleftrightarrow> length xs = k \<and> distinct xs \<and> set xs \<subseteq> set population"

text \<open>\<open>int(x)\<close> of a number: truncation towards zero.\<close>

definition py_int :: "rat \<Rightarrow> int" where
  "py_int x = (if 0 \<le> x then \<lfloor>x\<rfloor> else \<lceil>x\<rceil>)"

text \<open>A \<open>Counter\<close>: the keys in insertion order with their counts.\<close>

type_synonym counter = "(ustr \<times> int) list"

fun incr :: "counter \<Rightarrow> ustr \<Rightarrow> counter" where
  "incr [] k = [(k, 1)]"
| "incr ((k', n) # kvs) k = (if k' = k then (k', n + 1) # kvs else (k', n) # incr kvs k)"

definition sample_pages :: "(nat list \<Rightarrow> nat \<Rightarrow> nat list) \<Rightarrow> ustr list \<Rightarrow> ustr list" where
  "sample_pages rnd page_texts =
     (let total_pages = length page_texts
      in if 200 < total_pages then
           let sample_indices = [0 ..< 50] @ [total_pages - 50 ..< total_pages];
               middle_range = [50 ..< total_pages - 50];
               sample_indices =
                 (if 100 < length middle_range then sample_indices @ rnd middle_range 100
                  else sample_indices @ middle_range);
               sample_indices = sorted_list_of_set (set sample_indices)
           in map (\<lambda>i. page_texts ! i) sample_indices
         else page_texts)"

text \<open>The body of the loop over the lines of a page, on \<open>(line_counts, seen_on_page)\<close>.\<close>

definition count_line :: "counter \<times> ustr set \<Rightarrow> ustr \<Rightarrow> counter \<times> ustr set" where
  "count_line st line =
     (let line_counts = fst st; seen_on_page = snd st; stripped = strip line
      in if 3 \<le> length stripped \<and> length stripped \<le> 40 then
           (if stripped \<notin> seen_on_page
            then (incr line_counts stripped, insert stripped seen_on_page)
            else st)
         else st)"

definition count_page :: "counter \<Rightarrow> ustr \<Rightarrow> counter" where
  "count_page line_counts page_text =
     fst (foldl count_line (line_counts, {}) (split_str [NL] page_text))"

text \<open>
  The threshold is a \<open>float\<close> in the source; the model takes a rational and multiplies
  exactly (the rounding of the floating-point product is not modelled).
\<close>

definition find_repeating_headers_footers ::
    "(nat list \<Rightarrow> nat \<Rightarrow> nat list) \<Rightarrow> ustr list \<Rightarrow> rat \<Rightarrow> ustr set" where
  "find_repeating_headers_footers rnd page_texts threshold =
     (let total_pages = length page_texts
      in if total_pages < 3 then {}
         else
           let sampled_pages = sample_pages rnd page_texts;
               effective_total = length sampled_pages;
               line_counts = foldl count_page [] sampled_pages;
               min_count = py_int (of_nat effective_total * threshold)
           in set (map fst (filter (\<lambda>(line, count). min_count \<le> count) line_counts)))"

text \<open>\<open>(Chuong|CHUONG|chuong)\s+(\d{1,5})\s*[:\uFF1A\-\u2013]\s*(.+?)(?=\n|$)\<close> under
  \<open>re.MULTILINE\<close>, the three spellings with their Vietnamese letters; the separators are
  the colon, the fullwidth colon, the hyphen and the en dash.\<close>

definition Chuong :: ustr where
  "Chuong = [67, 104, 432, 417, 110, 103]"

definition CHUONG :: ustr where
  "CHUONG = [67, 72, 431, 416, 78, 71]"

definition chuong :: ustr where
  "chuong = [99, 104, 432, 417, 110, 103]"

definition chapter_title_re :: regex where
  "chapter_title_re =
     seqs [Grp 1 (Alt (Lit Chuong) (Alt (Lit CHUONG) (Lit chuong))),
           Greedy CSpace 1 None, Grp 2 (Greedy CDigit 1 (Some 5)), Greedy CSpace 0 None,
           Cls (CSet [58, 65306, 45, 8211]), Greedy CSpace 0 None,
           Grp 3 (Lazy CDot 1 None), Ahead (Alt (Lit [NL]) Eol)]"

text \<open>Every group of the pattern takes part in each of its matches; the model reads a
  group that did not as the empty string.\<close>

definition group_str :: "ustr \<Rightarrow> rmatch_obj \<Rightarrow> nat \<Rightarrow> ustr" where
  "group_str s m n = (case group s m n of None \<Rightarrow> [] | Some g \<Rightarrow> g)"

definition normalize_heading :: "ustr \<Rightarrow> rmatch_obj \<Rightarrow> ustr" where
  "normalize_heading s m =
     (let chap_word = group_str s m 1;
          number = group_str s m 2;
          title = strip (group_str s m 3)
      in chap_word @ [32] @ number @ [58, 32] @ title)"

definition normalize_chapter_title :: "ucd \<Rightarrow> ustr \<Rightarrow> ustr" where
  "normalize_chapter_title U text = re_sub U True chapter_title_re (normalize_heading text) text"

text \<open>The loop over \<open>lines[i:]\<close>; a join overwrites the next line and moves on to it.\<close>

fun process_lines :: "ucd \<Rightarrow> ustr set \<Rightarrow> ustr list \<Rightarrow> ustr list \<Rightarrow> ustr list" where
  "process_lines U repeating_lines [] processed_lines = processed_lines"
| "process_lines U repeating_lines (line # rest) processed_lines =
     (let stripped = strip line
      in if is_page_number_line U stripped then
           process_lines U repeating_lines rest processed_lines
         else if stripped \<in> repeating_lines then
           process_lines U repeating_lines rest processed_lines
         else if stripped = [] then
           (if processed_lines \<noteq> [] \<and> strip (last processed_lines) \<noteq> []
            then process_lines U repeating_lines rest (processed_lines @ [[]])
            else process_lines U repeating_lines rest processed_lines)
         else
           (case rest of
              next_line # rest' \<Rightarrow>
                if should_join_lines U line next_line
                   \<and> \<not> is_page_number_line U (strip next_line)
                then process_lines U repeating_lines
                       ((stripped @ [32] @ strip next_line) # rest') processed_lines
                else process_lines U repeating_lines rest (processed_lines @ [stripped])
            | [] \<Rightarrow> process_lines U repeating_lines rest (processed_lines @ [stripped])))"

text \<open>\<open>\n{3,}\<close>\<close>

definition blank_lines_re :: regex where
  "blank_lines_re = Greedy (CSet [NL]) 3 None"

text \<open>\<open>page_texts\<close> is \<open>None\<close> by default; the detector runs with its default threshold
  0.3 when the list is given and not empty.\<close>

definition preprocess_text ::
    "ucd \<Rightarrow> (nat list \<Rightarrow> nat \<Rightarrow> nat list) \<Rightarrow> ustr \<Rightarrow> ustr list option \<Rightarrow> ustr" where
  "preprocess_text U rnd text0 page_texts =
     (let text = normalize_newlines text0;
          repeating_lines =
            (case page_texts of
               None \<Rightarrow> {}
             | Some ps \<Rightarrow> if ps \<noteq> [] then find_repeating_headers_footers rnd ps (3 / 10) else {});
          lines = split_str [NL] text;
          processed_lines = process_lines U repeating_lines lines [];
          result = join [NL] processed_lines;
          result = normalize_chapter_title U result;
          result = re_sub U False blank_lines_re (\<lambda>m. [NL, NL]) result
      in strip result)"

section \<open>chapter\_split.py\<close>

text \<open>The dataclass \<open>Chapter\<close>; its field \<open>text\<close> is \<open>ch_text\<close> here (\<open>text\<close> is a
  reserved word).\<close>

record Chapter =
  number :: int
  title :: ustr
  ch_text :: ustr

text \<open>\<open>^\s*chuong\s+(\d{1,5})\s*(?:[:\uFF1A.\-\u2013\u2014]\s*(.+?))?\s*$\<close> under
  \<open>re.IGNORECASE | re.MULTILINE\<close>\<close>

definition CHAPTER_PATTERN :: regex where
  "CHAPTER_PATTERN =
     seqs [Bol, Greedy CSpace 0 None, chuong_ci, Greedy CSpace 1 None,
           Grp 1 (Greedy CDigit 1 (Some 5)), Greedy CSpace 0 None,
           Opt (seqs [Cls (CSet [58, 65306, 46, 45, 8211, 8212]), Greedy CSpace 0 None,
                      Grp 2 (Lazy CDot 1 None)]),
           Greedy CSpace 0 None, Eol]"

text \<open>The title of the whole-content chapter, sixteen characters with U+00E0 and U+1ED9
  among its letters, and the title of the prologue chapter, six characters with U+1EDF,
  U+0111 and U+1EA7.\<close>

definition whole_content_title :: ustr where
  "whole_content_title =
     [84, 111, 224, 110, 32, 98, 7897, 32, 110, 7897, 105, 32, 100, 117, 110, 103]"

definition prologue_title :: ustr where
  "prologue_title = [77, 7903, 32, 273, 7847, 117]"

text \<open>The loop over \<open>enumerate(matches)\<close>: the chapter of the first match, then the rest.\<close>

fun build_chapters :: "ucd \<Rightarrow> ustr \<Rightarrow> rmatch_obj list \<Rightarrow> Chapter list" where
  "build_chapters U txt [] = []"
| "build_chapters U txt (m # ms) =
     (let chapter_num = int_of_digits U (group_str txt m 1);
          chapter_title =
            strip (case group txt m 2 of
                     None \<Rightarrow> Chuong @ [32] @ str_int chapter_num
                   | Some g \<Rightarrow> if g = [] then Chuong @ [32] @ str_int chapter_num else g);
          start_pos = m_end m;
          end_pos = (case ms of [] \<Rightarrow> length txt | m' # _ \<Rightarrow> m_start m');
          chapter_text = strip (slice txt start_pos end_pos)
      in \<lparr>number = chapter_num, title = chapter_title, ch_text = chapter_text\<rparr>
         # build_chapters U txt ms)"

definition split_into_chapters :: "ucd \<Rightarrow> ustr \<Rightarrow> Chapter list" where
  "split_into_chapters U txt =
     (case finditer U True CHAPTER_PATTERN txt of
        [] \<Rightarrow> [\<lparr>number = 1, title = whole_content_title, ch_text = strip txt\<rparr>]
      | first_match # ms \<Rightarrow>
          let chapters = build_chapters U txt (first_match # ms);
              prologue_text = strip (slice txt 0 (m_start first_match))
          in if prologue_text \<noteq> [] \<and> 100 < length prologue_text
             then \<lparr>number = 0, title = prologue_title, ch_text = prologue_text\<rparr> # chapters
             else chapters)"

section \<open>chunking.py\<close>

text \<open>The dataclass \<open>Chunk\<close>; its field \<open>text\<close> is \<open>chunk_text\<close> here.\<close>

record Chunk =
  chapter_number :: int
  chapter_title :: ustr
  part_number :: int
  total_parts :: int
  chunk_text :: ustr
  chunk_id :: ustr

datatype error = ValueError ustr

text \<open>\<open>(?<=[.!?...])\s+\<close>: white space after a full stop, an exclamation mark, a question
  mark, an ellipsis, or the ideographic full stop and the fullwidth marks.\<close>

definition sentence_re :: regex where
  "sentence_re = Seq (Behind (CSet [46, 33, 63, 8230, 12290, 65281, 65311])) (Greedy CSpace 1 None)"

text \<open>The pattern has no \<open>\d\<close>, so the character database plays no part.\<close>

definition split_by_sentences :: "ustr \<Rightarrow> ustr list" where
  "split_by_sentences txt =
     (let sentences = re_split ascii_ucd False sentence_re txt
      in map strip (filter (\<lambda>s. strip s \<noteq> []) sentences))"

text \<open>The variables of the loop of \<open>split_by_paragraphs\<close>.\<close>

record pack_state =
  chunks :: "ustr list"
  current_chunk :: "ustr list"
  current_length :: int

definition par_sep :: ustr where
  "par_sep = [NL, NL]"

text \<open>\<open>chunks.append('\n\n'.join(current_chunk)); current_chunk = []; current_length = 0\<close>\<close>

definition flush :: "pack_state \<Rightarrow> pack_state" where
  "flush st =
     \<lparr>chunks = chunks st @ [join par_sep (current_chunk st)], current_chunk = [], current_length = 0\<rparr>"

text \<open>The body of the loop over the sentences of a long paragraph.\<close>

definition add_sentence :: "int \<Rightarrow> pack_state \<Rightarrow> ustr \<Rightarrow> pack_state" where
  "add_sentence max_chars st sentence =
     (let sent_len = int (length sentence);
          st1 = (if max_chars < current_length st + sent_len + 1 \<and> current_chunk st \<noteq> []
                 then flush st else st)
      in st1\<lparr>current_chunk := current_chunk st1 @ [sentence],
             current_length := current_length st1 + sent_len + 2\<rparr>)"

text \<open>The body of the loop over the paragraphs.\<close>

definition add_paragraph :: "int \<Rightarrow> pack_state \<Rightarrow> ustr \<Rightarrow> pack_state" where
  "add_paragraph max_chars st para0 =
     (let para = strip para0
      in if para = [] then st
         else
           let para_len = int (length para)
           in if max_chars < para_len then
                let st1 = (if current_chunk st \<noteq> [] then flush st else st);
                    sentences = split_by_sentences para
                in foldl (add_sentence max_chars) st1 sentences
              else
                let st1 = (if max_chars < current_length st + para_len + 2 \<and> current_chunk st \<noteq> []
                           then flush st else st)
                in st1\<lparr>current_chunk := current_chunk st1 @ [para],
                       current_length := current_length st1 + para_len + 2\<rparr>)"

definition split_by_paragraphs :: "ustr \<Rightarrow> int \<Rightarrow> ustr list" where
  "split_by_paragraphs txt max_chars =
     (let paragraphs = split_str par_sep txt;
          st = foldl (add_paragraph max_chars)
                 \<lparr>chunks = [], current_chunk = [], current_length = 0\<rparr> paragraphs
      in if current_chunk st \<noteq> [] then chunks (flush st) else chunks st)"

text \<open>\<open>f"chap_{number:04d}_part_{i:03d}"\<close>\<close>

definition make_chunk_id :: "int \<Rightarrow> int \<Rightarrow> ustr" where
  "make_chunk_id n i = asc ''chap_'' @ fmt_0d 4 n @ asc ''_part_'' @ fmt_0d 3 i"

text \<open>The body of the loop over the chapters: the chunks it appends to \<open>all_chunks\<close>.\<close>

definition chapter_chunks :: "int \<Rightarrow> Chapter \<Rightarrow> Chunk list" where
  "chapter_chunks max_chars chapter =
     (let chapter_text = strip (ch_text chapter)
      in if int (length chapter_text) \<le> max_chars then
           [\<lparr>chapter_number = number chapter, chapter_title = title chapter, part_number = 1,
             total_parts = 1, chunk_text = chapter_text,
             chunk_id = make_chunk_id (number chapter) 1\<rparr>]
         else
           let text_parts = split_by_paragraphs chapter_text max_chars;
               total_parts = int (length text_parts)
           in map (\<lambda>(i, part_text).
                    \<lparr>chapter_number = number chapter, chapter_title = title chapter,
                     part_number = i, total_parts = total_parts, chunk_text = part_text,
                     chunk_id = make_chunk_id (number chapter) i\<rparr>)
                  (zip [1 .. total_parts] text_parts))"

definition create_chunks :: "Chapter list \<Rightarrow> int \<Rightarrow> error + Chunk list" where
  "create_chunks chapters max_chars =
     (if max_chars \<le> 0
      then Inl (ValueError (asc ''max_chars must be positive, got '' @ str_int max_chars))
      else Inr (foldl (\<lambda>all_chunks chapter. all_chunks @ chapter_chunks max_chars chapter)
                  [] chapters))"

section \<open>Examples\<close>

text \<open>Chapter 3 with the text \<open>" Aa. Bb.\n\nD "\<close>, and chapter 4 with the text
  \<open>"Aaaaaaa. Bb."\<close>, whose first sentence has eight characters.\<close>

definition example_chapter :: Chapter where
  "example_chapter =
     \<lparr>number = 3, title = [84], ch_text = [32, 65, 97, 46, 32, 66, 98, 46, 10, 10, 68, 32]\<rparr>"

definition long_sentence_chapter :: Chapter where
  "long_sentence_chapter =
     \<lparr>number = 4, title = [84],
      ch_text = [65, 97, 97, 97, 97, 97, 97, 46, 32, 66, 98, 46]\<rparr>"

text \<open>A text of 101 letters \<open>a\<close>, a newline and the heading \<open>chuong 1\<close>; and the text
  \<open>"ab"\<close>, a newline and the same heading.\<close>

definition prologue_example :: ustr where
  "prologue_example = replicate 101 97 @ [10] @ chuong @ [32, 49]"

definition short_prologue_example :: ustr where
  "short_prologue_example = [97, 98, 10] @ chuong @ [32, 49]"

section \<open>Predicates of the proofs\<close>

text \<open>A string with no white space at either end, and not empty.\<close>

definition trimmed :: "ustr \<Rightarrow> bool" where
  "trimmed s \<longleftrightarrow> s \<noteq> [] \<and> \<not> isspace (hd s) \<and> \<not> isspace (last s)"

text \<open>A finished chunk: a join of trimmed pieces that fits in \<open>m\<close> characters or is one of
  the sentences \<open>S\<close>.\<close>

definition packed :: "int \<Rightarrow> ustr set \<Rightarrow> ustr \<Rightarrow> bool" where
  "packed m S c \<longleftrightarrow>
     (\<exists>ps. ps \<noteq> [] \<and> (\<forall>p \<in> set ps. trimmed p) \<and> c = join par_sep ps)
     \<and> (int (length c) \<le> m \<or> c \<in> S)"

text \<open>The invariant of the loops of \<open>split_by_paragraphs\<close>.\<close>

definition pack_inv :: "int \<Rightarrow> ustr set \<Rightarrow> pack_state \<Rightarrow> bool" where
  "pack_inv m S st \<longleftrightarrow>
     (\<forall>c \<in> set (chunks st). packed m S c)
     \<and> (\<forall>p \<in> set (current_chunk st). trimmed p)
     \<and> current_length st = (\<Sum>p\<leftarrow>current_chunk st. int (length p) + 2)
     \<and> (current_chunk st \<noteq> [] \<longrightarrow>
          int (length (join par_sep (current_chunk st))) \<le> m
          \<or> (\<exists>s \<in> S. current_chunk st = [s]))"

text \<open>The sentences of the paragraphs of a text that are longer than \<open>m\<close>.\<close>

definition long_sentences :: "int \<Rightarrow> ustr \<Rightarrow> ustr set" where
  "long_sentences m txt =
     (\<Union>para \<in> set (split_str par_sep txt).
        if m < int (length (strip para)) then set (split_by_sentences (strip para)) else {})"

text \<open>Two samplers: the first \<open>k\<close> and the last \<open>k\<close> elements of the population.\<close>

definition sampler_low :: "nat list \<Rightarrow> nat \<Rightarrow> nat list" where
  "sampler_low population k = take k population"

definition sampler_high :: "nat list \<Rightarrow> nat \<Rightarrow> nat list" where
  "sampler_high population k = drop (length population - k) population"

text \<open>The line \<open>HDR\<close>, and 201 pages: the line alone on pages 0 to 50 and on pages 151 to
  159, the other pages empty.\<close>

definition header_line :: ustr where
  "header_line = [72, 68, 82]"

definition header_pages :: "ustr list" where
  "header_pages =
     replicate 51 header_line @ replicate 100 [] @ replicate 9 header_line @ replicate 41 []"

text \<open>Four pages; the line \<open>abc\<close> is on the first page only.\<close>

definition four_pages :: "ustr list" where
  "four_pages = [[97, 98, 99], [], [], []]"

section \<open>Evaluation on concrete inputs\<close>

lemmas string_defs = strip_def lstrip_def rstrip_def slice_def split_str_def par_sep_def NL_def
  isspace_def

lemmas engine_defs = match_at_def rep_counts_def run_len_def at_bol_def at_eol_def seqs_def
  ci_lit_def finditer_def finditer_from.simps re_split_def re_sub_def re_match_def group_def
  group_str_def ascii_ucd_def

lemmas packer_defs = split_by_paragraphs_def add_paragraph_def add_sentence_def flush_def
  split_by_sentences_def sentence_re_def

lemma make_chunk_id_3:
  "make_chunk_id 3 1 = asc ''chap_0003_part_001'' \<and> make_chunk_id 3 2 = asc ''chap_0003_part_002''
   \<and> make_chunk_id 3 3 = asc ''chap_0003_part_003''"
  by (simp add: make_chunk_id_def fmt_0d_def digits_of.simps asc_def numeral_3_eq_3
      numeral_2_eq_2)

lemma example_parts:
  "split_by_paragraphs [65, 97, 46, 32, 66, 98, 46, 10, 10, 68] 5
     = [[65, 97, 46], [66, 98, 46], [68]]"
  by (simp add: packer_defs string_defs engine_defs)

lemma example_chunks:
  "chapter_chunks 5 example_chapter =
     [\<lparr>chapter_number = 3, chapter_title = [84], part_number = 1, total_parts = 3,
       chunk_text = [65, 97, 46], chunk_id = asc ''chap_0003_part_001''\<rparr>,
      \<lparr>chapter_number = 3, chapter_title = [84], part_number = 2, total_parts = 3,
       chunk_text = [66, 98, 46], chunk_id = asc ''chap_0003_part_002''\<rparr>,
      \<lparr>chapter_number = 3, chapter_title = [84], part_number = 3, total_parts = 3,
       chunk_text = [68], chunk_id = asc ''chap_0003_part_003''\<rparr>]"
proof -
  have u: "[1 .. 3] = [1, 2, 3::int]"
    by (simp add: upto.simps)
  show ?thesis
    by (simp add: chapter_chunks_def example_chapter_def strip_def lstrip_def rstrip_def
        isspace_def example_parts u make_chunk_id_3)
qed

section \<open>Chunk Packer: the loop over the chapters\<close>

lemma foldl_append_concat: "foldl (\<lambda>acc x. acc @ f x) a xs = a @ concat (map f xs)"
  by (induction xs arbitrary: a) simp_all

lemma create_chunks_positive:
  "0 < max_chars \<Longrightarrow>
   create_chunks chapters max_chars = Inr (concat (map (chapter_chunks max_chars) chapters))"
  by (simp add: create_chunks_def foldl_append_concat)

lemma map_fst_zip_upto: "map fst (zip [1 .. int (length xs)] xs) = [1 .. int (length xs)]"
proof -
  have "length [1 .. int (length xs)] = length xs" by simp
  then show ?thesis by (simp add: map_fst_zip)
qed

lemma chapter_chunks_part_numbers:
  "map part_number (chapter_chunks max_chars ch) = [1 .. int (length (chapter_chunks max_chars ch))]"
proof (cases "int (length (strip (ch_text ch))) \<le> max_chars")
  case True
  then show ?thesis by (simp add: chapter_chunks_def upto.simps)
next
  case False
  define parts where "parts = split_by_paragraphs (strip (ch_text ch)) max_chars"
  define mk where "mk = (\<lambda>(i, part_text).
       \<lparr>chapter_number = number ch, chapter_title = title ch, part_number = i,
        total_parts = int (length parts), chunk_text = part_text,
        chunk_id = make_chunk_id (number ch) i\<rparr>)"
  have cc: "chapter_chunks max_chars ch = map mk (zip [1 .. int (length parts)] parts)"
    using False by (simp add: chapter_chunks_def Let_def parts_def mk_def)
  have len: "length (chapter_chunks max_chars ch) = length parts"
    by (simp add: cc)
  have "map part_number (chapter_chunks max_chars ch) = map fst (zip [1 .. int (length parts)] parts)"
    by (simp add: cc mk_def case_prod_unfold comp_def)
  then show ?thesis
    by (simp only: len map_fst_zip_upto)
qed

lemma chapter_chunks_fields:
  "c \<in> set (chapter_chunks max_chars ch) \<Longrightarrow>
   total_parts c = int (length (chapter_chunks max_chars ch)) \<and> chapter_number c = number ch
   \<and> chapter_title c = title ch"
  by (cases "int (length (strip (ch_text ch))) \<le> max_chars")
     (auto simp: chapter_chunks_def Let_def)

text \<open>
  Claim C2.  For \<open>max_chars > 0\<close> the output of \<open>create_chunks\<close> is the concatenation, in
  chapter order, of the chunks of each chapter; the part numbers of the \<open>k\<close> chunks of a
  chapter are exactly \<open>1, 2, ..., k\<close> in output order, and each of these chunks carries
  \<open>total_parts = k\<close> and the number and title of its chapter.
\<close>

theorem part_numbering:
  assumes "0 < max_chars"
  shows "create_chunks chapters max_chars = Inr (concat (map (chapter_chunks max_chars) chapters))
       \<and> (\<forall>ch. map part_number (chapter_chunks max_chars ch)
                  = [1 .. int (length (chapter_chunks max_chars ch))]
              \<and> (\<forall>c \<in> set (chapter_chunks max_chars ch).
                    total_parts c = int (length (chapter_chunks max_chars ch))
                    \<and> chapter_number c = number ch \<and> chapter_title c = title ch))"
  using assms chapter_chunks_part_numbers chapter_chunks_fields
  by (simp add: create_chunks_positive)

theorem part_numbering_witness:
  "(0::int) < 5
   \<and> create_chunks [example_chapter, example_chapter] 5
       = Inr (chapter_chunks 5 example_chapter @ chapter_chunks 5 example_chapter)
   \<and> map part_number (chapter_chunks 5 example_chapter) = [1, 2, 3]
   \<and> map total_parts (chapter_chunks 5 example_chapter) = [3, 3, 3]
   \<and> map chapter_number (chapter_chunks 5 example_chapter) = [3, 3, 3]"
proof -
  have tot: "map total_parts (chapter_chunks 5 example_chapter) = [3, 3, 3]"
    and cn: "map chapter_number (chapter_chunks 5 example_chapter) = [3, 3, 3]"
    by (simp_all add: example_chunks)
  have len: "length (chapter_chunks 5 example_chapter) = 3"
    by (simp add: example_chunks)
  have num: "number example_chapter = 3"
    by (simp add: example_chapter_def)
  have u: "[1 .. 3] = [1, 2, 3::int]"
    by (simp add: upto.simps)
  show ?thesis
    using part_numbering [of 5 "[example_chapter, example_chapter]"] len num u tot cn by simp
qed

text \<open>
  Claim C3.  For every chapter list, \<open>create_chunks\<close> with \<open>max_chars \<le> 0\<close> returns the
  \<open>ValueError\<close> (the value is not clamped and no chunk is produced), and with
  \<open>max_chars > 0\<close> it returns a list of chunks and no error.
\<close>

theorem max_chars_contract:
  "(max_chars \<le> 0 \<longrightarrow>
      create_chunks chapters max_chars
        = Inl (ValueError (asc ''max_chars must be positive, got '' @ str_int max_chars)))
   \<and> (0 < max_chars \<longrightarrow> (\<exists>cs. create_chunks chapters max_chars = Inr cs))"
  by (simp add: create_chunks_def)

theorem max_chars_contract_witness:
  "create_chunks [example_chapter] 0 = Inl (ValueError (asc ''max_chars must be positive, got 0''))
   \<and> create_chunks [example_chapter] (- 7)
        = Inl (ValueError (asc ''max_chars must be positive, got -7''))
   \<and> (\<exists>cs. create_chunks [example_chapter] 5 = Inr cs)"
proof -
  have "str_int 0 = asc ''0''" and "str_int (- 7) = asc ''-7''"
    by (simp_all add: str_int_def digits_of.simps asc_def)
  then show ?thesis
    using max_chars_contract [of 0 "[example_chapter]"]
      max_chars_contract [of "- 7" "[example_chapter]"]
      max_chars_contract [of 5 "[example_chapter]"]
    by (simp add: asc_def)
qed

section \<open>Chapter Segmenter\<close>

lemma finditer_from_end: "length s < p \<Longrightarrow> finditer_from U ml r s p = []"
  by (subst finditer_from.simps) simp

lemma finditer_from_None:
  "p \<le> length s \<Longrightarrow> match_at U ml r s p = None \<Longrightarrow>
   finditer_from U ml r s p = finditer_from U ml r s (p + 1)"
  by (subst finditer_from.simps) simp

lemma finditer_from_Some:
  "p \<le> length s \<Longrightarrow> match_at U ml r s p = Some m \<Longrightarrow> p < m_end m \<Longrightarrow>
   finditer_from U ml r s p = m # finditer_from U ml r s (m_end m)"
  by (subst finditer_from.simps) simp

lemma finditer_from_skip:
  "p \<le> p' \<Longrightarrow> p' \<le> Suc (length s) \<Longrightarrow> (\<forall>q. p \<le> q \<and> q < p' \<longrightarrow> match_at U ml r s q = None) \<Longrightarrow>
   finditer_from U ml r s p = finditer_from U ml r s p'"
proof (induction "p' - p" arbitrary: p)
  case 0
  then show ?case by simp
next
  case (Suc n)
  then have lt: "p < p'" and le: "p \<le> length s" by auto
  have none: "match_at U ml r s p = None" using Suc.prems lt by simp
  have "finditer_from U ml r s p = finditer_from U ml r s (p + 1)"
    using finditer_from_None [OF le none] .
  also have "\<dots> = finditer_from U ml r s p'"
    using Suc.hyps(1) [of "p + 1"] Suc.hyps(2) Suc.prems lt by auto
  finally show ?case .
qed

lemma CHAPTER_PATTERN_needs_bol:
  "\<not> at_bol True s p \<Longrightarrow> match_at U True CHAPTER_PATTERN s p = None"
  by (simp add: match_at_def CHAPTER_PATTERN_def seqs_def)

lemma prologue_example_length: "length prologue_example = 110"
  by (simp add: prologue_example_def chuong_def)

lemma prologue_example_nth: "q < 101 \<Longrightarrow> prologue_example ! q = 97"
  by (simp add: prologue_example_def nth_append)

lemma prologue_example_no_match_0: "match_at ascii_ucd True CHAPTER_PATTERN prologue_example 0 = None"
proof -
  have h: "prologue_example = 97 # (replicate 100 97 @ [10] @ chuong @ [32, 49])"
    by (simp add: prologue_example_def flip: replicate_Suc)
  show ?thesis
    by (simp add: h CHAPTER_PATTERN_def chuong_ci_def engine_defs string_defs)
qed

lemma prologue_example_no_match_body: "\<forall>q. 1 \<le> q \<and> q < 102 \<longrightarrow> match_at ascii_ucd True CHAPTER_PATTERN prologue_example q = None"
proof (intro allI impI)
  fix q :: nat assume q: "1 \<le> q \<and> q < 102"
  then have "prologue_example ! (q - 1) = 97" by (intro prologue_example_nth) auto
  then have "\<not> at_bol True prologue_example q" using q by (simp add: at_bol_def NL_def)
  then show "match_at ascii_ucd True CHAPTER_PATTERN prologue_example q = None"
    by (rule CHAPTER_PATTERN_needs_bol)
qed

lemma prologue_example_match_102: "\<exists>g. match_at ascii_ucd True CHAPTER_PATTERN prologue_example 102 = Some \<lparr>m_start = 102, m_end = 110, m_groups = g\<rparr> \<and> g 1 = Some (109, 110) \<and> g 2 = None"
  by (simp add: prologue_example_def chuong_def CHAPTER_PATTERN_def chuong_ci_def engine_defs string_defs nth_append)


text \<open>
  Claim C8.  When the chapter pattern has no match in the text, \<open>split_into_chapters\<close>
  returns exactly one chapter: number 1, the whole-content title, and the trimmed input as
  its text.  The function returns a list in every case; it has no error result.
\<close>

theorem no_heading_fallback:
  assumes "finditer U True CHAPTER_PATTERN txt = []"
  shows "split_into_chapters U txt = [\<lparr>number = 1, title = whole_content_title, ch_text = strip txt\<rparr>]"
  using assms by (simp add: split_into_chapters_def)

lemma no_heading_example: "finditer ascii_ucd True CHAPTER_PATTERN [32, 97, 98, 10] = []"
  by (simp add: CHAPTER_PATTERN_def chuong_ci_def engine_defs string_defs)

theorem no_heading_fallback_witness:
  "finditer ascii_ucd True CHAPTER_PATTERN [32, 97, 98, 10] = []
   \<and> split_into_chapters ascii_ucd [32, 97, 98, 10]
       = [\<lparr>number = 1, title = whole_content_title, ch_text = [97, 98]\<rparr>]"
proof -
  have "strip [32, 97, 98, 10] = [97, 98]"
    by (simp add: string_defs)
  then show ?thesis
    using no_heading_fallback [OF no_heading_example] no_heading_example by simp
qed

text \<open>
  Claim C9.  When the chapter pattern has at least one match, the span before the first
  match, trimmed, becomes a chapter 0 with the prologue title in front of the chapters of
  the headings exactly when its length exceeds 100; otherwise the result is the chapters
  of the headings alone.
\<close>

theorem prologue_threshold:
  assumes "finditer U True CHAPTER_PATTERN txt = first_match # ms"
  shows "split_into_chapters U txt =
          (if 100 < length (strip (slice txt 0 (m_start first_match)))
           then \<lparr>number = 0, title = prologue_title,
                 ch_text = strip (slice txt 0 (m_start first_match))\<rparr>
                # build_chapters U txt (first_match # ms)
           else build_chapters U txt (first_match # ms))"
  using assms by (auto simp: split_into_chapters_def Let_def)

lemma prologue_example_matches:
  "\<exists>g. finditer ascii_ucd True CHAPTER_PATTERN prologue_example
          = [\<lparr>m_start = 102, m_end = 110, m_groups = g\<rparr>] \<and> g 1 = Some (109, 110) \<and> g 2 = None"
proof -
  obtain g where m: "match_at ascii_ucd True CHAPTER_PATTERN prologue_example 102
      = Some \<lparr>m_start = 102, m_end = 110, m_groups = g\<rparr>" and g: "g 1 = Some (109, 110)" "g 2 = None"
    using prologue_example_match_102 by blast
  have n110: "match_at ascii_ucd True CHAPTER_PATTERN prologue_example 110 = None"
    by (rule CHAPTER_PATTERN_needs_bol) (simp add: at_bol_def prologue_example_def chuong_def NL_def nth_append)
  have "finditer ascii_ucd True CHAPTER_PATTERN prologue_example
      = finditer_from ascii_ucd True CHAPTER_PATTERN prologue_example (0 + 1)"
    unfolding finditer_def by (rule finditer_from_None) (simp_all add: prologue_example_no_match_0)
  also have "\<dots> = finditer_from ascii_ucd True CHAPTER_PATTERN prologue_example 102"
    using prologue_example_no_match_body by (intro finditer_from_skip) (simp_all add: prologue_example_length)
  also have "\<dots> = \<lparr>m_start = 102, m_end = 110, m_groups = g\<rparr>
      # finditer_from ascii_ucd True CHAPTER_PATTERN prologue_example 110"
    using finditer_from_Some [OF _ m] by (simp add: prologue_example_length)
  also have "finditer_from ascii_ucd True CHAPTER_PATTERN prologue_example 110
      = finditer_from ascii_ucd True CHAPTER_PATTERN prologue_example (110 + 1)"
    by (rule finditer_from_None) (simp_all add: prologue_example_length n110)
  also have "\<dots> = []"
    by (rule finditer_from_end) (simp add: prologue_example_length)
  finally show ?thesis using g by blast
qed

lemma short_prologue_example_matches:
  "\<exists>g. finditer ascii_ucd True CHAPTER_PATTERN short_prologue_example
          = [\<lparr>m_start = 3, m_end = 11, m_groups = g\<rparr>] \<and> g 1 = Some (10, 11) \<and> g 2 = None"
  by (simp add: short_prologue_example_def chuong_def CHAPTER_PATTERN_def chuong_ci_def engine_defs string_defs)

lemma default_title_1: "strip (Chuong @ 32 # str_int 1) = Chuong @ [32, 49]"
  by (simp add: Chuong_def str_int_def digits_of.simps string_defs)

theorem prologue_threshold_witness:
  "split_into_chapters ascii_ucd prologue_example
     = [\<lparr>number = 0, title = prologue_title, ch_text = replicate 101 97\<rparr>,
        \<lparr>number = 1, title = Chuong @ [32, 49], ch_text = []\<rparr>]
   \<and> split_into_chapters ascii_ucd short_prologue_example
     = [\<lparr>number = 1, title = Chuong @ [32, 49], ch_text = []\<rparr>]"
proof -
  obtain g where m: "finditer ascii_ucd True CHAPTER_PATTERN prologue_example
          = [\<lparr>m_start = 102, m_end = 110, m_groups = g\<rparr>]" and g: "g 1 = Some (109, 110)" "g 2 = None"
    using prologue_example_matches by blast
  obtain h where m': "finditer ascii_ucd True CHAPTER_PATTERN short_prologue_example
          = [\<lparr>m_start = 3, m_end = 11, m_groups = h\<rparr>]" and h: "h 1 = Some (10, 11)" "h 2 = None"
    using short_prologue_example_matches by blast
  have p: "strip (slice prologue_example 0 102) = replicate 101 97"
    by (simp add: prologue_example_def string_defs)
  have d: "slice prologue_example 109 110 = [49]" "slice prologue_example 110 110 = []"
    by (simp_all add: prologue_example_def chuong_def slice_def)
  have b: "build_chapters ascii_ucd prologue_example [\<lparr>m_start = 102, m_end = 110, m_groups = g\<rparr>]
      = [\<lparr>number = 1, title = Chuong @ [32, 49], ch_text = []\<rparr>]"
    using g by (simp add: group_str_def group_def d int_of_digits_def ascii_ucd_def default_title_1 prologue_example_length)
      (simp add: string_defs)
  have p': "strip (slice short_prologue_example 0 3) = [97, 98]"
    by (simp add: short_prologue_example_def string_defs)
  have d': "slice short_prologue_example 10 11 = [49]" "slice short_prologue_example 11 11 = []"
    by (simp_all add: short_prologue_example_def chuong_def slice_def)
  have b': "build_chapters ascii_ucd short_prologue_example [\<lparr>m_start = 3, m_end = 11, m_groups = h\<rparr>]
      = [\<lparr>number = 1, title = Chuong @ [32, 49], ch_text = []\<rparr>]"
    using h by (simp add: group_str_def group_def d' int_of_digits_def ascii_ucd_def default_title_1)
      (simp add: short_prologue_example_def chuong_def string_defs)
  show ?thesis
    using prologue_threshold [OF m] prologue_threshold [OF m']
    by (simp add: p b p' b' del: build_chapters.simps)
qed

section \<open>Trimming\<close>

lemma rstrip_id: "s \<noteq> [] \<Longrightarrow> \<not> isspace (last s) \<Longrightarrow> rstrip s = s"
proof -
  assume "s \<noteq> []" and "\<not> isspace (last s)"
  then have "rev s \<noteq> []" and "\<not> isspace (hd (rev s))" by (simp_all add: hd_rev)
  then have "dropWhile isspace (rev s) = rev s" by (cases "rev s") auto
  then show ?thesis by (simp add: rstrip_def)
qed

lemma lstrip_id: "s \<noteq> [] \<Longrightarrow> \<not> isspace (hd s) \<Longrightarrow> lstrip s = s"
  by (cases s) (auto simp: lstrip_def)

lemma lstrip_hd: "lstrip s \<noteq> [] \<Longrightarrow> \<not> isspace (hd (lstrip s))"
  unfolding lstrip_def using hd_dropWhile by blast

lemma rstrip_last: "rstrip s \<noteq> [] \<Longrightarrow> \<not> isspace (last (rstrip s))"
proof -
  assume "rstrip s \<noteq> []"
  then have ne: "dropWhile isspace (rev s) \<noteq> []" by (simp add: rstrip_def)
  then have "\<not> isspace (hd (dropWhile isspace (rev s)))" by (rule hd_dropWhile)
  then show ?thesis using ne by (simp add: rstrip_def last_rev)
qed

lemma last_dropWhile: "dropWhile P xs \<noteq> [] \<Longrightarrow> last (dropWhile P xs) = last xs"
  by (induction xs) (auto split: if_splits)

lemma strip_Nil_iff: "strip s = [] \<longleftrightarrow> rstrip s = []"
proof
  assume e: "strip s = []"
  show "rstrip s = []"
  proof (rule ccontr)
    assume ne: "rstrip s \<noteq> []"
    then have "\<not> isspace (last (rstrip s))" by (rule rstrip_last)
    moreover have "\<forall>x \<in> set (rstrip s). isspace x"
      using e by (simp add: strip_def lstrip_def dropWhile_eq_Nil_conv)
    ultimately show False using ne last_in_set by blast
  qed
next
  assume "rstrip s = []" then show "strip s = []" by (simp add: strip_def lstrip_def)
qed

lemma strip_last_rstrip: "strip s \<noteq> [] \<Longrightarrow> last (strip s) = last (rstrip s)"
  unfolding strip_def lstrip_def by (rule last_dropWhile)

lemma strip_ends:
  assumes "strip s \<noteq> []"
  shows "\<not> isspace (hd (strip s))" and "\<not> isspace (last (strip s))"
proof -
  show "\<not> isspace (hd (strip s))"
    using assms unfolding strip_def by (rule lstrip_hd)
  have "rstrip s \<noteq> []" using assms by (simp add: strip_Nil_iff)
  then show "\<not> isspace (last (strip s))"
    using assms by (simp add: strip_last_rstrip rstrip_last)
qed

lemma strip_id: "s \<noteq> [] \<Longrightarrow> \<not> isspace (hd s) \<Longrightarrow> \<not> isspace (last s) \<Longrightarrow> strip s = s"
  by (simp add: strip_def rstrip_id lstrip_id)

lemma strip_strip: "strip (strip s) = strip s"
proof (cases "strip s = []")
  case True
  have "strip [] = []" by (simp add: strip_def lstrip_def rstrip_def)
  then show ?thesis by (simp add: True)
next
  case False
  then show ?thesis using strip_ends [OF False] by (simp add: strip_id)
qed



section \<open>Line Reflow Engine\<close>





section \<open>Chunk Packer: the size bound and trimmed texts\<close>

lemma join_snoc: "xs \<noteq> [] \<Longrightarrow> join sep (xs @ [x]) = join sep xs @ sep @ x"
  by (induction sep xs rule: join.induct) auto

lemma length_join:
  "xs \<noteq> [] \<Longrightarrow> int (length (join sep xs)) = (\<Sum>p\<leftarrow>xs. int (length p) + int (length sep)) - int (length sep)"
  by (induction sep xs rule: join.induct) auto

lemma join_ends:
  "xs \<noteq> [] \<Longrightarrow> \<forall>p \<in> set xs. p \<noteq> [] \<Longrightarrow>
   join sep xs \<noteq> [] \<and> hd (join sep xs) = hd (hd xs) \<and> last (join sep xs) = last (last xs)"
  by (induction sep xs rule: join.induct) auto

lemma trimmed_join: "xs \<noteq> [] \<Longrightarrow> \<forall>p \<in> set xs. trimmed p \<Longrightarrow> trimmed (join sep xs)"
proof -
  assume ne: "xs \<noteq> []" and t: "\<forall>p \<in> set xs. trimmed p"
  then have "\<forall>p \<in> set xs. p \<noteq> []" by (simp add: trimmed_def)
  from join_ends [OF ne this, of sep] t ne show ?thesis
    by (simp add: trimmed_def)
qed

lemma trimmed_strip: "strip s \<noteq> [] \<Longrightarrow> trimmed (strip s)"
  by (simp add: trimmed_def strip_ends)

lemma strip_trimmed: "trimmed s \<Longrightarrow> strip s = s"
  by (simp add: trimmed_def strip_id)

lemma split_by_sentences_trimmed: "s \<in> set (split_by_sentences p) \<Longrightarrow> trimmed s"
  by (auto simp: split_by_sentences_def trimmed_strip)

lemma packed_mono: "packed m S c \<Longrightarrow> S \<subseteq> S' \<Longrightarrow> packed m S' c"
  by (auto simp: packed_def)

lemma pack_inv_flush:
  assumes "pack_inv m S st" and "current_chunk st \<noteq> []"
  shows "pack_inv m S (flush st)"
proof -
  have "packed m S (join par_sep (current_chunk st))"
    using assms by (auto simp: pack_inv_def packed_def)
  then show ?thesis
    using assms by (simp add: pack_inv_def flush_def)
qed

lemma pack_inv_append:
  assumes inv: "pack_inv m S st"
    and t: "trimmed p"
    and fits: "current_chunk st \<noteq> [] \<Longrightarrow> current_length st + int (length p) \<le> m"
    and alone: "current_chunk st = [] \<Longrightarrow> int (length p) \<le> m \<or> p \<in> S"
  shows "pack_inv m S (st\<lparr>current_chunk := current_chunk st @ [p],
                           current_length := current_length st + int (length p) + 2\<rparr>)"
proof (cases "current_chunk st = []")
  case True
  then show ?thesis using inv t alone by (auto simp: pack_inv_def)
next
  case False
  have len: "current_length st = (\<Sum>q\<leftarrow>current_chunk st. int (length q) + 2)"
    using inv by (simp add: pack_inv_def)
  have "int (length (join par_sep (current_chunk st @ [p])))
      = (\<Sum>q\<leftarrow>current_chunk st @ [p]. int (length q) + int (length par_sep)) - int (length par_sep)"
    by (rule length_join) simp
  also have "\<dots> = current_length st + int (length p)"
    by (simp add: len par_sep_def)
  finally have "int (length (join par_sep (current_chunk st @ [p]))) \<le> m"
    using fits [OF False] by simp
  then show ?thesis using inv t len by (auto simp: pack_inv_def)
qed

lemma pack_inv_add_sentence:
  assumes inv: "pack_inv m S st" and t: "trimmed s" and s: "s \<in> S"
  shows "pack_inv m S (add_sentence m st s)"
proof (cases "m < current_length st + int (length s) + 1 \<and> current_chunk st \<noteq> []")
  case True
  then have f: "pack_inv m S (flush st)" using inv by (simp add: pack_inv_flush)
  have "pack_inv m S ((flush st)\<lparr>current_chunk := current_chunk (flush st) @ [s],
      current_length := current_length (flush st) + int (length s) + 2\<rparr>)"
    using f t s by (intro pack_inv_append) (simp_all add: flush_def)
  then show ?thesis using True by (simp add: add_sentence_def Let_def)
next
  case False
  have "pack_inv m S (st\<lparr>current_chunk := current_chunk st @ [s],
      current_length := current_length st + int (length s) + 2\<rparr>)"
    using inv t s False by (intro pack_inv_append) auto
  then show ?thesis using False by (auto simp: add_sentence_def Let_def)
qed

lemma pack_inv_sentences:
  "pack_inv m S st \<Longrightarrow> \<forall>s \<in> set ss. trimmed s \<and> s \<in> S \<Longrightarrow>
   pack_inv m S (foldl (add_sentence m) st ss)"
  by (induction ss arbitrary: st) (simp_all add: pack_inv_add_sentence)

lemma pack_inv_add_paragraph:
  assumes inv: "pack_inv m S st"
    and S: "m < int (length (strip para)) \<Longrightarrow> set (split_by_sentences (strip para)) \<subseteq> S"
  shows "pack_inv m S (add_paragraph m st para)"
proof (cases "strip para = []")
  case True
  then show ?thesis using inv by (simp add: add_paragraph_def)
next
  case ne: False
  then have t: "trimmed (strip para)" by (rule trimmed_strip)
  show ?thesis
  proof (cases "m < int (length (strip para))")
    case True
    define st1 where "st1 = (if current_chunk st \<noteq> [] then flush st else st)"
    have "pack_inv m S st1"
      using inv by (simp add: st1_def pack_inv_flush)
    moreover have "\<forall>s \<in> set (split_by_sentences (strip para)). trimmed s \<and> s \<in> S"
      using S [OF True] split_by_sentences_trimmed by blast
    ultimately have "pack_inv m S (foldl (add_sentence m) st1 (split_by_sentences (strip para)))"
      by (rule pack_inv_sentences)
    then show ?thesis using ne True by (simp add: add_paragraph_def Let_def st1_def)
  next
    case short: False
    show ?thesis
    proof (cases "m < current_length st + int (length (strip para)) + 2 \<and> current_chunk st \<noteq> []")
      case True
      then have f: "pack_inv m S (flush st)" using inv by (simp add: pack_inv_flush)
      have "pack_inv m S ((flush st)\<lparr>current_chunk := current_chunk (flush st) @ [strip para],
          current_length := current_length (flush st) + int (length (strip para)) + 2\<rparr>)"
        using f t short by (intro pack_inv_append) (simp_all add: flush_def)
      then show ?thesis using ne short True by (simp add: add_paragraph_def Let_def)
    next
      case False
      have "pack_inv m S (st\<lparr>current_chunk := current_chunk st @ [strip para],
          current_length := current_length st + int (length (strip para)) + 2\<rparr>)"
        using inv t short False by (intro pack_inv_append) auto
      then show ?thesis using ne short False by (auto simp: add_paragraph_def Let_def)
    qed
  qed
qed

lemma pack_inv_paragraphs:
  "pack_inv m S st \<Longrightarrow>
   \<forall>para \<in> set ps. m < int (length (strip para)) \<longrightarrow> set (split_by_sentences (strip para)) \<subseteq> S \<Longrightarrow>
   pack_inv m S (foldl (add_paragraph m) st ps)"
  by (induction ps arbitrary: st) (simp_all add: pack_inv_add_paragraph)

lemma pack_inv_init: "pack_inv m S \<lparr>chunks = [], current_chunk = [], current_length = 0\<rparr>"
  by (simp add: pack_inv_def)

lemma split_by_paragraphs_packed:
  assumes "c \<in> set (split_by_paragraphs txt m)"
  shows "packed m (long_sentences m txt) c"
proof -
  define st where "st = foldl (add_paragraph m)
      \<lparr>chunks = [], current_chunk = [], current_length = 0\<rparr> (split_str par_sep txt)"
  have "\<forall>para \<in> set (split_str par_sep txt). m < int (length (strip para)) \<longrightarrow>
      set (split_by_sentences (strip para)) \<subseteq> long_sentences m txt"
    by (auto simp: long_sentences_def)
  then have inv: "pack_inv m (long_sentences m txt) st"
    unfolding st_def by (intro pack_inv_paragraphs pack_inv_init)
  show ?thesis
  proof (cases "current_chunk st = []")
    case True
    then have "c \<in> set (chunks st)"
      using assms by (simp add: split_by_paragraphs_def Let_def st_def)
    then show ?thesis using inv by (simp add: pack_inv_def)
  next
    case False
    then have "c \<in> set (chunks (flush st))"
      using assms by (simp add: split_by_paragraphs_def Let_def st_def)
    moreover have "pack_inv m (long_sentences m txt) (flush st)"
      using inv False by (rule pack_inv_flush)
    ultimately show ?thesis by (simp add: pack_inv_def)
  qed
qed

lemma chapter_chunks_text:
  assumes "c \<in> set (chapter_chunks m ch)"
  shows "(int (length (strip (ch_text ch))) \<le> m \<and> chunk_text c = strip (ch_text ch))
       \<or> (m < int (length (strip (ch_text ch)))
           \<and> chunk_text c \<in> set (split_by_paragraphs (strip (ch_text ch)) m))"
proof (cases "int (length (strip (ch_text ch))) \<le> m")
  case True
  then show ?thesis using assms by (simp add: chapter_chunks_def)
next
  case False
  then obtain i part where "(i, part) \<in> set (zip [1 .. int (length (split_by_paragraphs (strip (ch_text ch)) m))]
        (split_by_paragraphs (strip (ch_text ch)) m))" and "chunk_text c = part"
    using assms by (auto simp: chapter_chunks_def Let_def)
  then show ?thesis using False by (auto dest: set_zip_rightD)
qed

lemma create_chunks_member:
  assumes "create_chunks chapters max_chars = Inr cs" and "c \<in> set cs"
  shows "\<exists>ch \<in> set chapters. c \<in> set (chapter_chunks max_chars ch)"
proof -
  have "0 < max_chars" using assms(1) by (simp add: create_chunks_def split: if_splits)
  then have "cs = concat (map (chapter_chunks max_chars) chapters)"
    using assms(1) by (simp add: create_chunks_positive)
  then show ?thesis using assms(2) by auto
qed

lemma long_sentence_parts:
  "split_by_paragraphs [65, 97, 97, 97, 97, 97, 97, 46, 32, 66, 98, 46] 5
     = [[65, 97, 97, 97, 97, 97, 97, 46], [66, 98, 46]]"
  by (simp add: packer_defs string_defs engine_defs)

lemma long_sentence_split:
  "split_by_sentences [65, 97, 97, 97, 97, 97, 97, 46, 32, 66, 98, 46]
     = [[65, 97, 97, 97, 97, 97, 97, 46], [66, 98, 46]]"
  by (simp add: packer_defs string_defs engine_defs)

lemma long_sentence_chunks:
  "map chunk_text (chapter_chunks 5 long_sentence_chapter)
     = [[65, 97, 97, 97, 97, 97, 97, 46], [66, 98, 46]]"
proof -
  have u: "[1 .. 2] = [1, 2::int]"
    by (simp add: upto.simps)
  show ?thesis
    by (simp add: chapter_chunks_def long_sentence_chapter_def strip_def lstrip_def rstrip_def
        isspace_def long_sentence_parts u)
qed

text \<open>
  Claim C1.  Every chunk that \<open>create_chunks\<close> produces has a text of at most
  \<open>max_chars\<close> characters, unless the text is, whole, one sentence that
  \<open>split_by_sentences\<close> gave for a paragraph longer than \<open>max_chars\<close>: an oversized
  chunk is a single complete sentence.
\<close>

theorem chunk_size_bound:
  assumes "create_chunks chapters max_chars = Inr cs" and "c \<in> set cs"
  shows "int (length (chunk_text c)) \<le> max_chars
       \<or> (\<exists>ch \<in> set chapters. \<exists>para \<in> set (split_str par_sep (strip (ch_text ch))).
             max_chars < int (length (strip para))
             \<and> chunk_text c \<in> set (split_by_sentences (strip para)))"
proof -
  obtain ch where ch: "ch \<in> set chapters" and c: "c \<in> set (chapter_chunks max_chars ch)"
    using create_chunks_member [OF assms] by blast
  from chapter_chunks_text [OF c] show ?thesis
  proof
    assume "int (length (strip (ch_text ch))) \<le> max_chars \<and> chunk_text c = strip (ch_text ch)"
    then show ?thesis by simp
  next
    assume "max_chars < int (length (strip (ch_text ch)))
        \<and> chunk_text c \<in> set (split_by_paragraphs (strip (ch_text ch)) max_chars)"
    then have "packed max_chars (long_sentences max_chars (strip (ch_text ch))) (chunk_text c)"
      by (simp add: split_by_paragraphs_packed)
    then have "int (length (chunk_text c)) \<le> max_chars
        \<or> chunk_text c \<in> long_sentences max_chars (strip (ch_text ch))"
      by (simp add: packed_def)
    then show ?thesis
    proof
      assume "int (length (chunk_text c)) \<le> max_chars"
      then show ?thesis by simp
    next
      assume "chunk_text c \<in> long_sentences max_chars (strip (ch_text ch))"
      then obtain para where "para \<in> set (split_str par_sep (strip (ch_text ch)))"
        and "max_chars < int (length (strip para))"
        and "chunk_text c \<in> set (split_by_sentences (strip para))"
        by (auto simp: long_sentences_def split: if_splits)
      then show ?thesis using ch by blast
    qed
  qed
qed

theorem chunk_size_bound_witness:
  "create_chunks [long_sentence_chapter] 5 = Inr (chapter_chunks 5 long_sentence_chapter)
   \<and> map chunk_text (chapter_chunks 5 long_sentence_chapter)
       = [[65, 97, 97, 97, 97, 97, 97, 46], [66, 98, 46]]
   \<and> \<not> int (length [65, 97, 97, 97, 97, 97, 97, 46::nat]) \<le> 5
   \<and> [65, 97, 97, 97, 97, 97, 97, 46]
       \<in> set (split_by_sentences [65, 97, 97, 97, 97, 97, 97, 46, 32, 66, 98, 46])"
proof -
  have cc: "create_chunks [long_sentence_chapter] 5 = Inr (chapter_chunks 5 long_sentence_chapter)"
    by (simp add: create_chunks_def)
  obtain c where c: "c \<in> set (chapter_chunks 5 long_sentence_chapter)"
    and t: "chunk_text c = [65, 97, 97, 97, 97, 97, 97, 46]"
    using long_sentence_chunks by (cases "chapter_chunks 5 long_sentence_chapter") auto
  have s: "strip (ch_text long_sentence_chapter) = [65, 97, 97, 97, 97, 97, 97, 46, 32, 66, 98, 46]"
    by (simp add: long_sentence_chapter_def string_defs)
  have p: "split_str par_sep [65, 97, 97, 97, 97, 97, 97, 46, 32, 66, 98, 46]
      = [[65, 97, 97, 97, 97, 97, 97, 46, 32, 66, 98, 46]]"
    by (simp add: string_defs)
  have s': "strip [65, 97, 97, 97, 97, 97, 97, 46, 32, 66, 98, 46]
      = [65, 97, 97, 97, 97, 97, 97, 46, 32, 66, 98, 46]"
    by (simp add: string_defs)
  have "[65, 97, 97, 97, 97, 97, 97, 46]
      \<in> set (split_by_sentences [65, 97, 97, 97, 97, 97, 97, 46, 32, 66, 98, 46])"
    using chunk_size_bound [OF cc c] by (simp add: t s p s')
  then show ?thesis using cc long_sentence_chunks by simp
qed

text \<open>
  Claim C10.  Every chunk that \<open>create_chunks\<close> produces has a text equal to its own
  trim; the text is the trimmed text of a chapter, or a join with two newlines of pieces
  that are not empty and are each equal to their own trim.
\<close>

theorem chunk_text_trimmed:
  assumes "create_chunks chapters max_chars = Inr cs" and "c \<in> set cs"
  shows "strip (chunk_text c) = chunk_text c
       \<and> ((\<exists>ch \<in> set chapters. chunk_text c = strip (ch_text ch))
          \<or> (\<exists>ps. ps \<noteq> [] \<and> (\<forall>p \<in> set ps. p \<noteq> [] \<and> strip p = p)
                \<and> chunk_text c = join par_sep ps))"
proof -
  obtain ch where ch: "ch \<in> set chapters" and c: "c \<in> set (chapter_chunks max_chars ch)"
    using create_chunks_member [OF assms] by blast
  from chapter_chunks_text [OF c] show ?thesis
  proof
    assume "int (length (strip (ch_text ch))) \<le> max_chars \<and> chunk_text c = strip (ch_text ch)"
    then show ?thesis using ch by (auto simp: strip_strip)
  next
    assume "max_chars < int (length (strip (ch_text ch)))
        \<and> chunk_text c \<in> set (split_by_paragraphs (strip (ch_text ch)) max_chars)"
    then have "packed max_chars (long_sentences max_chars (strip (ch_text ch))) (chunk_text c)"
      by (simp add: split_by_paragraphs_packed)
    then obtain ps where ps: "ps \<noteq> []" "\<forall>p \<in> set ps. trimmed p" "chunk_text c = join par_sep ps"
      by (auto simp: packed_def)
    then have "trimmed (chunk_text c)" by (simp add: trimmed_join)
    then have "strip (chunk_text c) = chunk_text c" by (rule strip_trimmed)
    moreover have "\<forall>p \<in> set ps. p \<noteq> [] \<and> strip p = p"
      using ps(2) strip_trimmed by (fastforce simp: trimmed_def)
    ultimately show ?thesis using ps by blast
  qed
qed

theorem chunk_text_trimmed_witness:
  "create_chunks [example_chapter] 5 = Inr (chapter_chunks 5 example_chapter)
   \<and> map chunk_text (chapter_chunks 5 example_chapter) = [[65, 97, 46], [66, 98, 46], [68]]
   \<and> strip [65, 97, 46] = [65, 97, 46]"
proof -
  have cc: "create_chunks [example_chapter] 5 = Inr (chapter_chunks 5 example_chapter)"
    by (simp add: create_chunks_def)
  have m: "map chunk_text (chapter_chunks 5 example_chapter) = [[65, 97, 46], [66, 98, 46], [68]]"
    by (simp add: example_chunks)
  then obtain c where c: "c \<in> set (chapter_chunks 5 example_chapter)"
    and t: "chunk_text c = [65, 97, 46]"
    by (cases "chapter_chunks 5 example_chapter") auto
  have "strip [65, 97, 46] = [65, 97, 46]"
    using chunk_text_trimmed [OF cc c] by (simp add: t)
  then show ?thesis using cc m by simp
qed

section \<open>Boilerplate Detector and Text Normalizer\<close>

lemma sample_pages_small: "length page_texts \<le> 200 \<Longrightarrow> sample_pages rnd page_texts = page_texts"
  by (simp add: sample_pages_def)

lemma find_repeating_small:
  "length page_texts \<le> 200 \<Longrightarrow>
   find_repeating_headers_footers rnd page_texts t = find_repeating_headers_footers rnd' page_texts t"
  by (simp add: find_repeating_headers_footers_def sample_pages_small)

lemma count_page_empty: "count_page lc [] = lc"
  by (simp add: count_page_def count_line_def string_defs)

lemma count_page_header: "count_page lc header_line = incr lc header_line"
  by (simp add: count_page_def count_line_def string_defs header_line_def Let_def)

lemma count_empty_pages: "foldl count_page lc (replicate n []) = lc"
  by (induction n) (simp_all add: count_page_empty)

lemma count_header_pages:
  "foldl count_page [(header_line, k)] (replicate n header_line) = [(header_line, k + int n)]"
  by (induction n arbitrary: k) (simp_all add: count_page_header)

lemma count_header_pages0:
  "foldl count_page [] (replicate (Suc n) header_line) = [(header_line, 1 + int n)]"
  by (simp add: count_page_header count_header_pages)

lemma sorted_indices: "sorted xs \<Longrightarrow> distinct xs \<Longrightarrow> set ys = set xs \<Longrightarrow> sorted_list_of_set (set ys) = xs"
  by (simp add: sorted_list_of_set.idem_if_sorted_distinct)

lemma map_nth_upt: "b \<le> length xs \<Longrightarrow> map (\<lambda>i. xs ! i) [a ..< b] = drop a (take b xs)"
  by (rule nth_equalityI) auto

lemma header_pages_length: "length header_pages = 201"
  by (simp add: header_pages_def)

lemma low_indices:
  "sorted_list_of_set (set ([0 ..< 50] @ [201 - 50 ..< 201] @ sampler_low [50 ..< 201 - 50] 100))
     = [0 ..< 150] @ [151 ..< 201]"
  by (rule sorted_indices) (auto simp: sampler_low_def sorted_append simp del: upt_rec_numeral)

lemma high_indices:
  "sorted_list_of_set (set ([0 ..< 50] @ [201 - 50 ..< 201] @ sampler_high [50 ..< 201 - 50] 100))
     = [0 ..< 50] @ [51 ..< 201]"
  by (rule sorted_indices) (auto simp: sampler_high_def sorted_append simp del: upt_rec_numeral)

lemma sample_low:
  "sample_pages sampler_low header_pages
     = replicate 51 header_line @ replicate 99 [] @ replicate 9 header_line @ replicate 41 []"
proof -
  have "sample_pages sampler_low header_pages = map (\<lambda>i. header_pages ! i) ([0 ..< 150] @ [151 ..< 201])"
    using low_indices
    by (simp add: sample_pages_def header_pages_length Let_def Un_assoc del: upt_rec_numeral)
  also have "\<dots> = drop 0 (take 150 header_pages) @ drop 151 (take 201 header_pages)"
    by (simp only: map_append) (simp add: map_nth_upt header_pages_length del: upt_rec_numeral)
  also have "\<dots> = replicate 51 header_line @ replicate 99 [] @ replicate 9 header_line @ replicate 41 []"
    by (simp add: header_pages_def)
  finally show ?thesis .
qed

lemma sample_high:
  "sample_pages sampler_high header_pages
     = replicate 50 header_line @ replicate 100 [] @ replicate 9 header_line @ replicate 41 []"
proof -
  have "sample_pages sampler_high header_pages = map (\<lambda>i. header_pages ! i) ([0 ..< 50] @ [51 ..< 201])"
    using high_indices
    by (simp add: sample_pages_def header_pages_length Let_def Un_assoc del: upt_rec_numeral)
  also have "\<dots> = drop 0 (take 50 header_pages) @ drop 51 (take 201 header_pages)"
    by (simp only: map_append) (simp add: map_nth_upt header_pages_length del: upt_rec_numeral)
  also have "\<dots> = replicate 50 header_line @ replicate 100 [] @ replicate 9 header_line @ replicate 41 []"
    by (simp add: header_pages_def)
  finally show ?thesis .
qed

lemma replicate_Suc_numeral: "replicate (numeral k) x = x # replicate (pred_numeral k) x"
  by (simp add: numeral_eq_Suc)

lemma count_low:
  "foldl count_page [] (sample_pages sampler_low header_pages) = [(header_line, 60)]"
proof -
  have "foldl count_page [] (replicate 51 header_line) = [(header_line, 51)]"
    using count_header_pages0 [of 50] by simp
  then show ?thesis
    using count_header_pages [of 51 9] by (simp add: sample_low count_empty_pages)
qed

lemma count_high:
  "foldl count_page [] (sample_pages sampler_high header_pages) = [(header_line, 59)]"
proof -
  have "foldl count_page [] (replicate 50 header_line) = [(header_line, 50)]"
    using count_header_pages0 [of 49] by simp
  then show ?thesis
    using count_header_pages [of 50 9] by (simp add: sample_high count_empty_pages)
qed

lemma headers_low: "find_repeating_headers_footers sampler_low header_pages (3 / 10) = {header_line}"
proof -
  have "length (sample_pages sampler_low header_pages) = 200"
    by (simp add: sample_low)
  then show ?thesis
    by (auto simp: find_repeating_headers_footers_def header_pages_length count_low py_int_def
        Let_def)
qed

lemma headers_high: "find_repeating_headers_footers sampler_high header_pages (3 / 10) = {}"
proof -
  have "length (sample_pages sampler_high header_pages) = 200"
    by (simp add: sample_high)
  then show ?thesis
    by (simp add: find_repeating_headers_footers_def header_pages_length count_high py_int_def
        Let_def)
qed

lemma samplers_valid:
  "is_sample [50 ..< 151] 100 (sampler_low [50 ..< 151] 100)
   \<and> is_sample [50 ..< 151] 100 (sampler_high [50 ..< 151] 100)"
  by (simp add: is_sample_def sampler_low_def sampler_high_def del: upt_rec_numeral)

lemma header_line_plain:
  "\<not> is_page_number_line ascii_ucd header_line"
  by (simp add: is_page_number_line_def header_line_def page_number_re1_def page_number_re2_def
      page_number_re3_def engine_defs string_defs)

lemma header_line_no_title:
  "normalize_chapter_title ascii_ucd header_line = header_line"
  by (simp add: normalize_chapter_title_def chapter_title_re_def header_line_def Chuong_def
      CHUONG_def chuong_def engine_defs string_defs)

lemma header_line_no_blank:
  "re_sub ascii_ucd False blank_lines_re f header_line = header_line"
  by (simp add: blank_lines_re_def header_line_def engine_defs string_defs)

lemma empty_no_title: "normalize_chapter_title U [] = []"
  by (simp add: normalize_chapter_title_def chapter_title_re_def Chuong_def
      CHUONG_def chuong_def engine_defs string_defs)

lemma empty_no_blank: "re_sub U False blank_lines_re f [] = []"
  by (simp add: blank_lines_re_def engine_defs string_defs)

lemma header_line_newlines: "normalize_newlines header_line = header_line"
  by (simp add: normalize_newlines_def replace_str_def header_line_def string_defs)

lemma header_line_strip: "strip header_line = header_line" "strip [] = []"
  by (simp_all add: header_line_def string_defs)

lemma header_line_split: "split_str [NL] header_line = [header_line]"
  by (simp add: header_line_def string_defs)

text \<open>
  Claim C6, as amended.  For the same raw text and the same page texts, with no page list
  or a list of at most 200 pages, \<open>preprocess_text\<close> returns the same string whatever the
  random sampler gives: the sampler is not consulted.
\<close>

theorem normalize_deterministic_up_to_200_pages:
  assumes "case page_texts of None \<Rightarrow> True | Some ps \<Rightarrow> length ps \<le> 200"
  shows "preprocess_text U rnd txt page_texts = preprocess_text U rnd' txt page_texts"
proof (cases page_texts)
  case None
  then show ?thesis by (simp add: preprocess_text_def)
next
  case (Some ps)
  then have "find_repeating_headers_footers rnd ps (3 / 10) = find_repeating_headers_footers rnd' ps (3 / 10)"
    using assms by (simp add: find_repeating_small)
  then show ?thesis using Some by (simp add: preprocess_text_def)
qed

theorem normalize_deterministic_up_to_200_pages_witness:
  "preprocess_text ascii_ucd sampler_low header_line (Some four_pages)
     = preprocess_text ascii_ucd sampler_high header_line (Some four_pages)
   \<and> preprocess_text ascii_ucd sampler_low header_line None
     = preprocess_text ascii_ucd sampler_high header_line None"
  using normalize_deterministic_up_to_200_pages [of "Some four_pages" ascii_ucd sampler_low header_line sampler_high]
    normalize_deterministic_up_to_200_pages [of None ascii_ucd sampler_low header_line sampler_high]
  by (simp add: four_pages_def)

text \<open>
  Claim C6 as stated fails beyond 200 pages.  On the 201 pages of \<open>header_pages\<close> the
  detector draws 100 of the 101 middle pages.  When page 50 is drawn the line \<open>HDR\<close> is
  counted on 60 of the 200 sampled pages and is removed from the text; when page 50 is the
  one left out it is counted on 59 and kept.  Both draws are outcomes of \<open>random.sample\<close>.
\<close>

theorem sampling_breaks_determinism:
  "is_sample [50 ..< 151] 100 (sampler_low [50 ..< 151] 100)
   \<and> is_sample [50 ..< 151] 100 (sampler_high [50 ..< 151] 100)
   \<and> length header_pages = 201
   \<and> preprocess_text ascii_ucd sampler_low header_line (Some header_pages) = []
   \<and> preprocess_text ascii_ucd sampler_high header_line (Some header_pages) = header_line
   \<and> preprocess_text ascii_ucd sampler_low header_line (Some header_pages)
       \<noteq> preprocess_text ascii_ucd sampler_high header_line (Some header_pages)"
proof -
  have ne: "header_pages \<noteq> []"
    using header_pages_length by auto
  have hne: "header_line \<noteq> []"
    by (simp add: header_line_def)
  have low: "preprocess_text ascii_ucd sampler_low header_line (Some header_pages) = []"
    using header_line_plain
    by (simp add: preprocess_text_def ne headers_low header_line_newlines header_line_split
        header_line_strip empty_no_title empty_no_blank)
  have high: "preprocess_text ascii_ucd sampler_high header_line (Some header_pages) = header_line"
    using header_line_plain hne
    by (simp add: preprocess_text_def ne headers_high header_line_newlines header_line_split
        header_line_strip header_line_no_title header_line_no_blank)
  show ?thesis
    using samplers_valid header_pages_length low high hne by simp
qed

text \<open>
  Claim C5, the code at a failing input.  On four pages with the default threshold 0.3 the
  line \<open>abc\<close> is on one page only, and one page is less than 0.3 \<times> 4 = 1.2 pages; the
  minimum count is truncated to 1 and the detector returns the line.
\<close>

theorem detector_truncates_threshold:
  "find_repeating_headers_footers sampler_low four_pages (3 / 10) = {[97, 98, 99]}
   \<and> foldl count_page [] four_pages = [([97, 98, 99], 1)]
   \<and> py_int (of_nat (length four_pages) * (3 / 10)) = 1
   \<and> (1 :: rat) < of_nat (length four_pages) * (3 / 10)"
proof -
  have c: "foldl count_page [] four_pages = [([97, 98, 99], 1)]"
    by (simp add: four_pages_def count_page_def count_line_def string_defs Let_def)
  have s: "sample_pages sampler_low four_pages = four_pages"
    by (rule sample_pages_small) (simp add: four_pages_def)
  have l: "length four_pages = 4"
    by (simp add: four_pages_def)
  have m: "py_int (of_nat (length four_pages) * (3 / 10)) = 1"
    by (simp add: l py_int_def) linarith
  show ?thesis
    using m by (auto simp: find_repeating_headers_footers_def s c l Let_def)
qed

section \<open>Text Normalizer: chapter headings\<close>




















end
